theory Spec2Isabelle
  imports Main "HOL-Library.Sublist" "HOL-Library.Char_ord" "HOL-Library.List_Lexorder"
begin

section \<open>The time-synchronisation rule of gcpdiag\<close>

text \<open>
  The rule module \<^verbatim>\<open>warn_2025_001_time_synchronization_errors.py\<close> holds a list of
  search strings, a module-level dictionary \<^verbatim>\<open>logs_by_project\<close> and the two entry points
  \<^verbatim>\<open>prepare_rule\<close> and \<^verbatim>\<open>run_rule\<close>. Its collaborators (the serial-output search of
  \<^verbatim>\<open>gcpdiag.lint.gce.utils\<close>, the instance query of \<^verbatim>\<open>gcpdiag.queries.gce\<close> and the
  lint report) live in other modules; what the rule reads of them is modelled below.

  Strings are \<^typ>\<open>string\<close>; their order is the lexicographic order of the characters,
  which is the order Python's \<^verbatim>\<open>sorted\<close> uses on \<^verbatim>\<open>str\<close> keys.
\<close>

subsection \<open>Data\<close>

record Context =
  project_id :: string

text \<open>An instance exposes \<^verbatim>\<open>id\<close> and \<^verbatim>\<open>name\<close>; \<open>id'\<close> stands for \<^verbatim>\<open>id\<close>.\<close>

record Instance =
  id' :: string
  name :: string

record LogEntryShort =
  timestamp_iso :: string
  "text" :: string

subsection \<open>Substring search\<close>

text \<open>Python's \<^verbatim>\<open>pat in line\<close> on strings.\<close>

fun contains :: "string \<Rightarrow> string \<Rightarrow> bool" where
  "contains pat [] = (pat = [])"
| "contains pat (c # cs) = (prefix pat (c # cs) \<or> contains pat cs)"

subsection \<open>The constants of the rule\<close>

text \<open>
  The eighth pattern is the raw string \<^verbatim>\<open>r'Can\'t synchronise: no selectable sources'\<close>:
  it holds a backslash (character \<open>0x5C\<close>) before the apostrophe.
\<close>

definition TIME_SYNC_ERROR_MESSAGES :: "string list" where
  "TIME_SYNC_ERROR_MESSAGES =
    [''time may be out of sync'',
     ''System clock is unsynchronized'',
     ''Time drift detected'',
     ''no servers can be used, system clock unsynchronized'',
     ''time reset'',
     ''System clock unsynchronized'',
     ''Time offset too large'',
     ''Can'' @ [CHR 0x5C, CHR 0x27] @ ''t synchronise: no selectable sources'',
     ''Clock skew detected'',
     ''Clock skew too great'',
     ''Could not receive latest log timestamp from server'']"

text \<open>
  The filter expression of \<^verbatim>\<open>prepare_rule\<close>, character by character: a triple-quoted
  literal of twelve lines, the quoted terms indented by four blanks.
\<close>

definition filter_str :: string where
  \<open>filter_str =
    ''textPayload:(\<newline>'' @
    ''    "time may be out of sync" OR\<newline>'' @
    ''    "System clock is unsynchronized" OR\<newline>'' @
    ''    "Time drift detected" OR\<newline>'' @
    ''    "no servers can be used" OR\<newline>'' @
    ''    "time reset" OR\<newline>'' @
    ''    "Time offset too large" OR\<newline>'' @
    ''    "Can't synchronise" OR\<newline>'' @
    ''    "Clock skew detected" OR\<newline>'' @
    ''    "Clock skew too great" OR\<newline>'' @
    ''    "Could not receive latest log timestamp"\<newline>'' @
    ''  )''\<close>

subsection \<open>The serial-output search (module \<^verbatim>\<open>gcpdiag.lint.gce.utils\<close>)\<close>

text \<open>
  Modelled from the spec: the quoted terms of a filter expression. The filter language
  belongs to the log source; the spec says of it only that it is pushed down to the log
  source to leave irrelevant lines out, and the rule's filter is a disjunction of quoted
  terms on the text payload. \<open>quoted_terms\<close> reads the text between each pair of double
  quotes (character \<open>0x22\<close>), in order.
\<close>

fun quoted :: "bool \<Rightarrow> string \<Rightarrow> string \<Rightarrow> string list" where
  "quoted inside acc [] = []"
| "quoted inside acc (c # cs) =
    (if c = CHR 0x22 then
       (if inside then rev acc # quoted False [] cs else quoted True [] cs)
     else quoted inside (if inside then c # acc else acc) cs)"

definition quoted_terms :: "string \<Rightarrow> string list" where
  "quoted_terms f = quoted False [] f"

text \<open>
  Modelled from the spec: a line satisfies the filter when it contains one of the
  filter's quoted terms.
\<close>

definition satisfies_filter :: "string \<Rightarrow> string \<Rightarrow> bool" where
  "satisfies_filter f line = list_ex (\<lambda>q. contains q line) (quoted_terms f)"

text \<open>
  Modelled from the spec: \<^verbatim>\<open>PatternSet.matches\<close>, ``true if any pattern is found as a
  substring or regex match within the line''. The patterns of this rule use one regex
  construct only, the backslash escape of a punctuation character, so the regex reading
  of a pattern is the search for the pattern with each escape replaced by the escaped
  character (\<open>unescape\<close>).
\<close>

fun unescape :: "string \<Rightarrow> string" where
  "unescape (b # c # cs) = (if b = CHR 0x5C then c # unescape cs else b # unescape (c # cs))"
| "unescape cs = cs"

definition pattern_found :: "string \<Rightarrow> string \<Rightarrow> bool" where
  "pattern_found p line = (contains p line \<or> contains (unescape p) line)"

definition matches :: "string list \<Rightarrow> string \<Rightarrow> bool" where
  "matches ps line = list_ex (\<lambda>p. pattern_found p line) ps"

text \<open>
  The failures the spec gives the search: \<^verbatim>\<open>SourceUnavailableError\<close> (serial logs cannot be
  retrieved at all) and \<^verbatim>\<open>FetchError\<close> (a transient failure of the bulk fetch). A run of
  the rule that does not return ends with the \<^verbatim>\<open>KeyError\<close> of a dictionary lookup in the
  rule, or with a failure of the search, which the rule does not catch.
\<close>

datatype search_error = SourceUnavailableError | FetchError

datatype error = KeyError string | SearchError search_error

text \<open>
  The collaborators the rule and the search call, as functions of the context:
  \<^verbatim>\<open>utils.is_serial_port_one_logs_available\<close>, \<^verbatim>\<open>gce.get_instances\<close> (a dictionary from
  instance id to instance, here its items in the dictionary's order) and the log source,
  which answers a bulk fetch with a failure or with the serial-console lines of the
  context in chronological order, each with the id of its instance.
\<close>

record Env =
  is_serial_port_one_logs_available :: "Context \<Rightarrow> bool"
  get_instances :: "Context \<Rightarrow> (string \<times> Instance) list"
  serial_lines :: "Context \<Rightarrow> search_error + (string \<times> LogEntryShort) list"

text \<open>
  Modelled from the spec: the object \<^verbatim>\<open>utils.SerialOutputSearch\<close> (the spec's
  SerialSearchIndex with its PatternSet), whose class is not part of the rule's module.
  It keeps the context, the patterns and the optional pre-filter it was built with, and
  the log source it reads. What it has fetched is kept in the cache below, under its key.
\<close>

record SerialOutputSearch =
  search_context :: Context
  search_strings :: "string list"
  custom_filter :: "string option"
  log_source :: "search_error + (string \<times> LogEntryShort) list"

text \<open>
  Modelled from the spec: the constructor of \<^verbatim>\<open>utils.SerialOutputSearch\<close>. Building a search
  object fetches nothing and has no other effect. (The spec's \<^verbatim>\<open>ConfigurationError\<close> is for
  an empty pattern list; the rule's list is not empty.)
\<close>

definition new_search ::
  "Env \<Rightarrow> Context \<Rightarrow> string list \<Rightarrow> string option \<Rightarrow> SerialOutputSearch" where
  "new_search env ctx strings flt =
    \<lparr>search_context = ctx, search_strings = strings, custom_filter = flt,
     log_source = serial_lines env ctx\<rparr>"

text \<open>
  Modelled from the spec: the cache of search sessions, keyed by SearchContext and
  PatternSet (the patterns with their pre-filter), ``so that two rules sharing the same
  SearchContext and PatternSet reuse one fetch-and-scan pass''. A session is the result
  of the one pass for its key: the failure of the fetch, kept so that later queries fail
  fast, or for each instance id the most recent matching line. \<open>fetch_log\<close> is the
  fetch-count probe of the spec's scenario E: the keys of the bulk fetches issued so far,
  in order. A lint run starts with \<open>new_cache\<close>.
\<close>

type_synonym search_key = "Context \<times> string list \<times> string option"

record Cache =
  sessions :: "search_key \<rightharpoonup> search_error + (string \<rightharpoonup> LogEntryShort)"
  fetch_log :: "search_key list"

definition new_cache :: Cache where
  "new_cache = \<lparr>sessions = Map.empty, fetch_log = []\<rparr>"

definition key_of :: "SerialOutputSearch \<Rightarrow> search_key" where
  "key_of s = (search_context s, search_strings s, custom_filter s)"

text \<open>
  Modelled from the spec: the bulk fetch fails as the log source fails, or returns the
  lines of the log source that satisfy the pre-filter, if there is one.
\<close>

definition fetch :: "SerialOutputSearch \<Rightarrow> search_error + (string \<times> LogEntryShort) list" where
  "fetch s =
    (case log_source s of
       Inl e \<Rightarrow> Inl e
     | Inr lines \<Rightarrow>
         Inr (case custom_filter s of
                None \<Rightarrow> lines
              | Some f \<Rightarrow> filter (\<lambda>(i, e). satisfies_filter f (text e)) lines))"

text \<open>
  Modelled from the spec: the scan goes through the fetched lines in order and keeps, for
  each instance, the matching line with the greatest timestamp, the later line winning
  where timestamps are equal.
\<close>

fun scan ::
  "string list \<Rightarrow> (string \<times> LogEntryShort) list \<Rightarrow> (string \<rightharpoonup> LogEntryShort)
    \<Rightarrow> (string \<rightharpoonup> LogEntryShort)" where
  "scan ps [] m = m"
| "scan ps ((i, e) # es) m =
    scan ps es
      (if matches ps (text e) \<and>
          (case m i of None \<Rightarrow> True | Some old \<Rightarrow> timestamp_iso old \<le> timestamp_iso e)
       then m(i \<mapsto> e) else m)"

text \<open>
  Modelled from the spec: \<^verbatim>\<open>get_last_match\<close>. Where the cache has a session for the key of
  the search, the call answers from it: the kept failure, or the entry kept for the
  instance (or none). Otherwise the call runs the one fetch-and-scan pass for the key,
  logs the fetch, keeps the outcome as the session and answers from it. The result is
  the failure raised or the optional entry returned, and the cache after the call.
\<close>

definition get_last_match ::
  "SerialOutputSearch \<Rightarrow> string \<Rightarrow> Cache \<Rightarrow> (search_error + LogEntryShort option) \<times> Cache"
  where
  "get_last_match s instance_id c =
    (case sessions c (key_of s) of
       Some (Inl e) \<Rightarrow> (Inl e, c)
     | Some (Inr found) \<Rightarrow> (Inr (found instance_id), c)
     | None \<Rightarrow>
         (case fetch s of
            Inl e \<Rightarrow>
              (Inl e,
               c\<lparr>sessions := (sessions c)(key_of s \<mapsto> Inl e),
                 fetch_log := fetch_log c @ [key_of s]\<rparr>)
          | Inr lines \<Rightarrow>
              (let found = scan (search_strings s) lines Map.empty
               in (Inr (found instance_id),
                   c\<lparr>sessions := (sessions c)(key_of s \<mapsto> Inr found),
                     fetch_log := fetch_log c @ [key_of s]\<rparr>))))"

subsection \<open>The rule\<close>

text \<open>The module-level dictionary \<^verbatim>\<open>logs_by_project\<close>, from project id to search object.\<close>

type_synonym logs_by_project = "string \<rightharpoonup> SerialOutputSearch"

text \<open>
  \<^verbatim>\<open>prepare_rule\<close> builds a search object from the context, the patterns and the filter,
  and stores it under the context's project id.
\<close>

definition prepare_rule :: "Env \<Rightarrow> Context \<Rightarrow> logs_by_project \<Rightarrow> logs_by_project" where
  "prepare_rule env ctx logs =
    logs(project_id ctx \<mapsto> new_search env ctx TIME_SYNC_ERROR_MESSAGES (Some filter_str))"

text \<open>
  What a run does to its collaborators, in order: the calls on the report and the queries
  put to the search object.
\<close>

datatype call =
    add_skipped "Instance option" string
  | add_failed Instance string
  | add_ok Instance
  | last_match_query string

text \<open>The message of \<^verbatim>\<open>add_failed\<close>: two f-strings and two literals, concatenated.\<close>

definition failed_message :: "Instance \<Rightarrow> LogEntryShort \<Rightarrow> string" where
  \<open>failed_message instance m =
    ''Time synchronization errors detected on instance '' @ name instance @ ''.\<newline>'' @
    timestamp_iso m @ '': "'' @ text m @ ''"\<newline>'' @
    ''Verify that the instance can reach metadata.google.internal '' @
    ''and that NTP/Chrony services are properly configured.''\<close>

text \<open>
  The body of the \<^verbatim>\<open>for\<close> loop after the query: \<^verbatim>\<open>if match:\<close> reports the instance
  as failed with the message, \<^verbatim>\<open>else:\<close> reports it as ok. A log entry is an object
  without \<^verbatim>\<open>__bool__\<close> or \<^verbatim>\<open>__len__\<close>, so every entry is true and only \<^verbatim>\<open>None\<close> is false.
\<close>

definition verdict :: "Instance \<Rightarrow> LogEntryShort option \<Rightarrow> call" where
  "verdict instance match =
    (case match of
       Some m \<Rightarrow> add_failed instance (failed_message instance m)
     | None \<Rightarrow> add_ok instance)"

text \<open>
  The \<^verbatim>\<open>for\<close> loop of \<^verbatim>\<open>run_rule\<close> over the sorted instances: one query and one verdict
  per instance, all queries put to the one search object. The loop has no \<^verbatim>\<open>try\<close>: a
  query that fails ends the loop and the run with its failure, after the calls made so
  far. The result is the calls made, the failure that ended the loop (if any) and the
  cache after the loop.
\<close>

fun run_loop ::
  "SerialOutputSearch \<Rightarrow> Instance list \<Rightarrow> Cache \<Rightarrow> call list \<times> error option \<times> Cache" where
  "run_loop search [] c = ([], None, c)"
| "run_loop search (instance # rest) c =
    (case get_last_match search (id' instance) c of
       (Inl e, c') \<Rightarrow> ([last_match_query (id' instance)], Some (SearchError e), c')
     | (Inr match, c') \<Rightarrow>
         (case run_loop search rest c' of
            (calls, outcome, c'') \<Rightarrow>
              (last_match_query (id' instance) # verdict instance match # calls, outcome, c'')))"

text \<open>
  \<^verbatim>\<open>run_rule\<close>: the result is the calls made, in order, how the run ended (\<open>None\<close> when it
  returned, the failure when it raised one) and the cache after the run. The run reads
  \<^verbatim>\<open>logs_by_project\<close> and never assigns to it, so the dictionary is the same after the run.
  \<^verbatim>\<open>sorted(instances, key=lambda i: i.name)\<close> is a stable sort, as \<^const>\<open>sort_key\<close> is.
\<close>

definition run_rule ::
  "Env \<Rightarrow> Context \<Rightarrow> logs_by_project \<Rightarrow> Cache \<Rightarrow> call list \<times> error option \<times> Cache" where
  "run_rule env ctx logs c =
    (if \<not> is_serial_port_one_logs_available env ctx then
       ([add_skipped None ''serial port output is unavailable''], None, c)
     else
       (case logs (project_id ctx) of
          None \<Rightarrow> ([], Some (KeyError (project_id ctx)), c)
        | Some search \<Rightarrow>
            (let instances = map snd (get_instances env ctx) in
             if instances = [] then ([add_skipped None ''No instances found''], None, c)
             else run_loop search (sort_key name instances) c)))"

subsection \<open>Reading a run\<close>

text \<open>The parts of a result: the calls, how the run ended, the cache.\<close>

definition calls_of :: "call list \<times> error option \<times> Cache \<Rightarrow> call list" where
  "calls_of r = fst r"

definition outcome_of :: "call list \<times> error option \<times> Cache \<Rightarrow> error option" where
  "outcome_of r = fst (snd r)"

definition cache_of :: "call list \<times> error option \<times> Cache \<Rightarrow> Cache" where
  "cache_of r = snd (snd r)"

text \<open>The calls on the report, the queries left out.\<close>

fun is_report_call :: "call \<Rightarrow> bool" where
  "is_report_call (last_match_query i) = False"
| "is_report_call c = True"

definition report_calls :: "call list \<Rightarrow> call list" where
  "report_calls cs = filter is_report_call cs"

text \<open>The instance a verdict is about; a skip and a query carry no verdict.\<close>

fun verdict_instance :: "call \<Rightarrow> Instance option" where
  "verdict_instance (add_failed i msg) = Some i"
| "verdict_instance (add_ok i) = Some i"
| "verdict_instance c = None"

definition verdict_instances :: "call list \<Rightarrow> Instance list" where
  "verdict_instances cs = List.map_filter verdict_instance cs"

fun is_failed_for :: "Instance \<Rightarrow> call \<Rightarrow> bool" where
  "is_failed_for i (add_failed j msg) = (i = j)"
| "is_failed_for i c = False"

fun is_ok_for :: "Instance \<Rightarrow> call \<Rightarrow> bool" where
  "is_ok_for i (add_ok j) = (i = j)"
| "is_ok_for i c = False"

fun is_query :: "call \<Rightarrow> bool" where
  "is_query (last_match_query i) = True"
| "is_query c = False"

text \<open>
  The answers a search object gives to a sequence of queries, each query put to the cache
  as the one before left it, and the answers returned before the first failure.
\<close>

fun answers ::
  "SerialOutputSearch \<Rightarrow> string list \<Rightarrow> Cache \<Rightarrow> (search_error + LogEntryShort option) list"
  where
  "answers s [] c = []"
| "answers s (i # ids) c =
    (case get_last_match s i c of (r, c') \<Rightarrow> r # answers s ids c')"

fun returned :: "('e + 'a) list \<Rightarrow> 'a list" where
  "returned [] = []"
| "returned (Inl e # rs) = []"
| "returned (Inr a # rs) = a # returned rs"

text \<open>
  The cache after a sequence of queries, each by some search object for some instance id,
  and after a sequence of runs of the rule, each in its environment, for its context and
  on the dictionary of the rule that runs.
\<close>

fun after_queries :: "(SerialOutputSearch \<times> string) list \<Rightarrow> Cache \<Rightarrow> Cache" where
  "after_queries [] c = c"
| "after_queries ((s, i) # qs) c = after_queries qs (snd (get_last_match s i c))"

fun after_runs :: "(Env \<times> Context \<times> logs_by_project) list \<Rightarrow> Cache \<Rightarrow> Cache" where
  "after_runs [] c = c"
| "after_runs ((env, ctx, logs) # rs) c = after_runs rs (cache_of (run_rule env ctx logs c))"

text \<open>
  The state of a cache in which no key was fetched twice: the logged fetches are pairwise
  different, and they are the keys that have a session.
\<close>

definition one_fetch_per_key :: "Cache \<Rightarrow> bool" where
  "one_fetch_per_key c = (distinct (fetch_log c) \<and> set (fetch_log c) = dom (sessions c))"

subsection \<open>A project with two instances\<close>

text \<open>
  The scenarios of the spec on one project: instance \<open>vm-b\<close> logs the line of scenario A,
  instance \<open>vm-a\<close> logs nothing that matches, and the dictionary lists \<open>vm-b\<close> first.
\<close>

definition ctx1 :: Context where
  "ctx1 = \<lparr>project_id = ''p1''\<rparr>"

definition vm_a :: Instance where
  "vm_a = \<lparr>id' = ''1002'', name = ''vm-a''\<rparr>"

definition vm_b :: Instance where
  "vm_b = \<lparr>id' = ''1001'', name = ''vm-b''\<rparr>"

definition entry_a :: LogEntryShort where
  "entry_a = \<lparr>timestamp_iso = ''2025-01-01T00:00:00Z'', text = ''System clock is unsynchronized''\<rparr>"

definition entry_boot :: LogEntryShort where
  "entry_boot = \<lparr>timestamp_iso = ''2025-01-01T00:00:01Z'', text = ''Started OpenSSH server''\<rparr>"

definition env1 :: Env where
  "env1 =
    \<lparr>is_serial_port_one_logs_available = (\<lambda>c. True),
     get_instances = (\<lambda>c. [(''1001'', vm_b), (''1002'', vm_a)]),
     serial_lines = (\<lambda>c. Inr [(''1001'', entry_a), (''1002'', entry_boot)])\<rparr>"

text \<open>The same project with no serial-port logs, and with no instance.\<close>

definition env_unavailable :: Env where
  "env_unavailable = env1\<lparr>is_serial_port_one_logs_available := (\<lambda>c. False)\<rparr>"

definition env_empty :: Env where
  "env_empty = env1\<lparr>get_instances := (\<lambda>c. [])\<rparr>"

definition env_unavailable_empty :: Env where
  "env_unavailable_empty = env_unavailable\<lparr>get_instances := (\<lambda>c. [])\<rparr>"

text \<open>The same project with the dictionary in the other order.\<close>

definition env1_reordered :: Env where
  "env1_reordered = env1\<lparr>get_instances := (\<lambda>c. [(''1002'', vm_a), (''1001'', vm_b)])\<rparr>"

text \<open>The same project with a log source whose bulk fetch fails.\<close>

definition env_fetch_error :: Env where
  "env_fetch_error = env1\<lparr>serial_lines := (\<lambda>c. Inl FetchError)\<rparr>"

text \<open>A project whose one instance logs the Chrony message of the pattern list.\<close>

definition entry_chrony :: LogEntryShort where
  "entry_chrony = \<lparr>timestamp_iso = ''2025-01-01T00:00:02Z'', text = ''System clock unsynchronized''\<rparr>"

definition env_chrony :: Env where
  "env_chrony =
    \<lparr>is_serial_port_one_logs_available = (\<lambda>c. True),
     get_instances = (\<lambda>c. [(''1002'', vm_a)]),
     serial_lines = (\<lambda>c. Inr [(''1002'', entry_chrony)])\<rparr>"

text \<open>
  A project with two instances of one name (in two zones), whose dictionary lists them
  in one order or the other; neither logs a line that matches.
\<close>

definition vm_west :: Instance where
  "vm_west = \<lparr>id' = ''2001'', name = ''vm''\<rparr>"

definition vm_east :: Instance where
  "vm_east = \<lparr>id' = ''2002'', name = ''vm''\<rparr>"

definition env_west_first :: Env where
  "env_west_first =
    \<lparr>is_serial_port_one_logs_available = (\<lambda>c. True),
     get_instances = (\<lambda>c. [(''2001'', vm_west), (''2002'', vm_east)]),
     serial_lines = (\<lambda>c. Inr [])\<rparr>"

definition env_east_first :: Env where
  "env_east_first = env_west_first\<lparr>get_instances := (\<lambda>c. [(''2002'', vm_east), (''2001'', vm_west)])\<rparr>"

section \<open>Lemmas\<close>

subsection \<open>Substrings and the failure message\<close>

lemma contains_sublist: "contains p s = sublist p s"
  by (induction s) (simp_all add: sublist_Cons_right)

lemma contains_append: "contains p (a @ p @ b)"
  by (simp add: contains_sublist)

lemma failed_message_timestamp: "contains (timestamp_iso m) (failed_message i m)"
proof -
  have "failed_message i m =
    (''Time synchronization errors detected on instance '' @ name i @ ''.\<newline>'') @
    timestamp_iso m @ (CHR '':'' # CHR '' '' # CHR 0x22 # text m @ CHR 0x22 # ''\<newline>'' @
    ''Verify that the instance can reach metadata.google.internal '' @
    ''and that NTP/Chrony services are properly configured.'')"
    by (simp add: failed_message_def)
  then show ?thesis by (simp only: contains_append)
qed

lemma failed_message_text: "contains (text m) (failed_message i m)"
proof -
  have "failed_message i m =
    (''Time synchronization errors detected on instance '' @ name i @ ''.\<newline>'' @
    timestamp_iso m @ [CHR '':'', CHR '' '', CHR 0x22]) @ text m @ (CHR 0x22 # ''\<newline>'' @
    ''Verify that the instance can reach metadata.google.internal '' @
    ''and that NTP/Chrony services are properly configured.'')"
    by (simp add: failed_message_def)
  then show ?thesis by (simp only: contains_append)
qed

lemma failed_message_hint:
  "contains ''Verify that the instance can reach metadata.google.internal and that NTP/Chrony services are properly configured.'' (failed_message i m)"
proof -
  have "failed_message i m =
    (''Time synchronization errors detected on instance '' @ name i @ ''.\<newline>'' @
    timestamp_iso m @ [CHR '':'', CHR '' '', CHR 0x22] @ text m @ CHR 0x22 # ''\<newline>'') @
    ''Verify that the instance can reach metadata.google.internal and that NTP/Chrony services are properly configured.'' @ []"
    by (simp add: failed_message_def)
  then show ?thesis by (simp only: contains_append)
qed

subsection \<open>The search and its cache\<close>

lemma get_last_match_cached:
  "sessions c (key_of s) = Some r \<Longrightarrow>
    get_last_match s i c = ((case r of Inl e \<Rightarrow> Inl e | Inr found \<Rightarrow> Inr (found i)), c)"
  by (simp add: get_last_match_def split: sum.splits)

lemma get_last_match_session:
  "\<exists>r. sessions (snd (get_last_match s i c)) (key_of s) = Some r \<and>
    fst (get_last_match s i c) = (case r of Inl e \<Rightarrow> Inl e | Inr found \<Rightarrow> Inr (found i))"
  by (simp add: get_last_match_def Let_def split: option.splits sum.splits)

lemma get_last_match_fetch_log:
  "fetch_log (snd (get_last_match s i c)) =
    (if sessions c (key_of s) = None then fetch_log c @ [key_of s] else fetch_log c)"
  by (simp add: get_last_match_def Let_def split: option.splits sum.splits)

lemma get_last_match_dom:
  "dom (sessions (snd (get_last_match s i c))) = insert (key_of s) (dom (sessions c))"
  by (auto simp: get_last_match_def Let_def split: option.splits sum.splits if_splits)

lemma get_last_match_twice:
  "get_last_match s i (snd (get_last_match s i c)) =
    (fst (get_last_match s i c), snd (get_last_match s i c))"
proof -
  from get_last_match_session [of s i c] obtain r
    where "sessions (snd (get_last_match s i c)) (key_of s) = Some r"
      and "fst (get_last_match s i c) = (case r of Inl e \<Rightarrow> Inl e | Inr found \<Rightarrow> Inr (found i))"
    by blast
  then show ?thesis by (simp add: get_last_match_cached)
qed

lemma one_fetch_per_key_new: "one_fetch_per_key new_cache"
  by (simp add: one_fetch_per_key_def new_cache_def)

lemma one_fetch_per_key_query:
  assumes "one_fetch_per_key c"
  shows "one_fetch_per_key (snd (get_last_match s i c))"
proof (cases "sessions c (key_of s)")
  case None
  then have "key_of s \<notin> set (fetch_log c)"
    using assms by (auto simp: one_fetch_per_key_def)
  with None assms show ?thesis
    by (simp add: one_fetch_per_key_def get_last_match_fetch_log get_last_match_dom)
next
  case (Some r)
  with assms show ?thesis by (simp add: get_last_match_cached)
qed

lemma one_fetch_per_key_queries:
  "one_fetch_per_key c \<Longrightarrow> one_fetch_per_key (after_queries qs c)"
  by (induction qs arbitrary: c) (auto simp: one_fetch_per_key_query)

lemma after_queries_cached:
  "sessions c (key_of s) \<noteq> None \<Longrightarrow> after_queries (map (Pair s) ids) c = c"
  by (induction ids) (auto simp: get_last_match_cached)

lemma after_queries_append:
  "after_queries (qs @ qs') c = after_queries qs' (after_queries qs c)"
  by (induction qs arbitrary: c) auto

lemma distinct_count_list: "distinct xs \<Longrightarrow> count_list xs k \<le> 1"
  by (induction xs) (auto simp: count_list_0_iff)

subsection \<open>The loop\<close>

lemma result_parts:
  "calls_of (cs, out, c) = cs"
  "outcome_of (cs, out, c) = out"
  "cache_of (cs, out, c) = c"
  by (simp_all add: calls_of_def outcome_of_def cache_of_def)

lemma run_loop_Cons:
  "run_loop s (i # rest) c =
    (case fst (get_last_match s (id' i) c) of
       Inl e \<Rightarrow>
         ([last_match_query (id' i)], Some (SearchError e), snd (get_last_match s (id' i) c))
     | Inr m \<Rightarrow>
         (last_match_query (id' i) # verdict i m #
            calls_of (run_loop s rest (snd (get_last_match s (id' i) c))),
          outcome_of (run_loop s rest (snd (get_last_match s (id' i) c))),
          cache_of (run_loop s rest (snd (get_last_match s (id' i) c)))))"
  by (simp add: calls_of_def outcome_of_def cache_of_def split: prod.splits sum.splits)

lemma answers_Cons:
  "answers s (i # ids) c =
    fst (get_last_match s i c) # answers s ids (snd (get_last_match s i c))"
  by (simp split: prod.splits)

lemma length_answers: "length (answers s ids c) = length ids"
  by (induction ids arbitrary: c) (simp_all add: answers_Cons del: answers.simps(2))

lemma is_report_call_verdict: "is_report_call (verdict i m)"
  by (cases m) (simp_all add: verdict_def)

lemma is_query_verdict: "\<not> is_query (verdict i m)"
  by (cases m) (simp_all add: verdict_def)

lemma verdict_instance_verdict: "verdict_instance (verdict i m) = Some i"
  by (cases m) (simp_all add: verdict_def)

lemma run_loop_reports:
  "report_calls (calls_of (run_loop s insts c)) =
    map2 verdict insts (returned (answers s (map id' insts) c))"
proof (induction insts arbitrary: c)
  case Nil
  show ?case by (simp add: report_calls_def calls_of_def)
next
  case (Cons i rest)
  show ?case
  proof (cases "fst (get_last_match s (id' i) c)")
    case (Inl e)
    then show ?thesis
      by (simp add: run_loop_Cons answers_Cons report_calls_def calls_of_def
          del: run_loop.simps(2) answers.simps(2))
  next
    case (Inr m)
    with Cons [of "snd (get_last_match s (id' i) c)"] show ?thesis
      by (simp add: run_loop_Cons answers_Cons report_calls_def calls_of_def
          is_report_call_verdict del: run_loop.simps(2) answers.simps(2))
  qed
qed

lemma run_loop_verdict_instances:
  "prefix (verdict_instances (calls_of (run_loop s insts c))) insts \<and>
   (outcome_of (run_loop s insts c) = None \<longrightarrow>
      verdict_instances (calls_of (run_loop s insts c)) = insts)"
proof (induction insts arbitrary: c)
  case Nil
  show ?case
    by (simp add: verdict_instances_def List.map_filter_simps calls_of_def outcome_of_def)
next
  case (Cons i rest)
  show ?case
  proof (cases "fst (get_last_match s (id' i) c)")
    case (Inl e)
    then show ?thesis
      by (simp add: run_loop_Cons verdict_instances_def List.map_filter_simps calls_of_def
          outcome_of_def del: run_loop.simps(2))
  next
    case (Inr m)
    with Cons [of "snd (get_last_match s (id' i) c)"] show ?thesis
      by (simp add: run_loop_Cons verdict_instances_def List.map_filter_simps calls_of_def
          outcome_of_def verdict_instance_verdict del: run_loop.simps(2))
  qed
qed

lemma run_loop_queries:
  "prefix (filter is_query (calls_of (run_loop s insts c)))
     (map (\<lambda>i. last_match_query (id' i)) insts)"
proof (induction insts arbitrary: c)
  case Nil
  show ?case by (simp add: calls_of_def)
next
  case (Cons i rest)
  show ?case
  proof (cases "fst (get_last_match s (id' i) c)")
    case (Inl e)
    then show ?thesis
      by (simp add: run_loop_Cons calls_of_def del: run_loop.simps(2))
  next
    case (Inr m)
    with Cons [of "snd (get_last_match s (id' i) c)"] show ?thesis
      by (simp add: run_loop_Cons calls_of_def is_query_verdict del: run_loop.simps(2))
  qed
qed

lemma run_loop_cached:
  "sessions c (key_of s) = Some (Inr found) \<Longrightarrow>
    outcome_of (run_loop s insts c) = None \<and> cache_of (run_loop s insts c) = c"
proof (induction insts)
  case Nil
  show ?case by (simp add: outcome_of_def cache_of_def)
next
  case (Cons i rest)
  then show ?case
    by (simp add: run_loop_Cons get_last_match_cached outcome_of_def cache_of_def
        del: run_loop.simps(2))
qed

lemma run_loop_failure:
  assumes "outcome_of (run_loop s insts c) = Some e"
  shows "\<exists>i rest e'. insts = i # rest \<and> e = SearchError e' \<and>
    fst (get_last_match s (id' i) c) = Inl e' \<and>
    calls_of (run_loop s insts c) = [last_match_query (id' i)]"
proof (cases insts)
  case Nil
  with assms show ?thesis by (simp add: outcome_of_def)
next
  case (Cons i rest)
  show ?thesis
  proof (cases "fst (get_last_match s (id' i) c)")
    case (Inl e')
    with assms Cons show ?thesis
      by (simp add: run_loop_Cons outcome_of_def calls_of_def del: run_loop.simps(2))
  next
    case (Inr m)
    from get_last_match_session [of s "id' i" c] obtain r
      where r: "sessions (snd (get_last_match s (id' i) c)) (key_of s) = Some r"
        and a: "fst (get_last_match s (id' i) c) =
          (case r of Inl e \<Rightarrow> Inl e | Inr found \<Rightarrow> Inr (found (id' i)))"
      by blast
    from a Inr obtain found where "r = Inr found" by (cases r) auto
    with r have "sessions (snd (get_last_match s (id' i) c)) (key_of s) = Some (Inr found)"
      by simp
    from run_loop_cached [OF this, of rest] assms Cons Inr have False
      by (simp add: run_loop_Cons outcome_of_def del: run_loop.simps(2))
    then show ?thesis ..
  qed
qed

lemma run_loop_cache:
  "cache_of (run_loop s insts c) = after_queries (map (\<lambda>i. (s, id' i)) insts) c"
proof (induction insts arbitrary: c)
  case Nil
  show ?case by (simp add: cache_of_def)
next
  case (Cons i rest)
  let ?c = "snd (get_last_match s (id' i) c)"
  show ?case
  proof (cases "fst (get_last_match s (id' i) c)")
    case (Inl e)
    from get_last_match_session [of s "id' i" c]
    have "sessions ?c (key_of s) \<noteq> None" by auto
    from after_queries_cached [OF this, of "map id' rest"]
    have "after_queries (map (\<lambda>i. (s, id' i)) rest) ?c = ?c"
      by (simp add: comp_def)
    with Inl show ?thesis
      by (simp add: run_loop_Cons cache_of_def del: run_loop.simps(2))
  next
    case (Inr m)
    with Cons [of ?c] show ?thesis
      by (simp add: run_loop_Cons cache_of_def del: run_loop.simps(2))
  qed
qed

lemma verdict_count:
  "length (filter (is_failed_for i) cs) + length (filter (is_ok_for i) cs) =
    count_list (verdict_instances cs) i"
proof (induction cs)
  case Nil
  show ?case by (simp add: verdict_instances_def List.map_filter_simps)
next
  case (Cons c cs)
  then show ?case
    by (cases c) (auto simp: verdict_instances_def List.map_filter_simps)
qed

lemma count_list_distinct: "distinct xs \<Longrightarrow> x \<in> set xs \<Longrightarrow> count_list xs x = 1"
  by (induction xs) (auto simp: count_list_0_iff)

lemma run_loop_no_failure:
  assumes "log_source s = Inr lines" and "sessions c (key_of s) = None"
  shows "outcome_of (run_loop s insts c) = None"
proof (cases "outcome_of (run_loop s insts c)")
  case None
  then show ?thesis .
next
  case (Some e)
  from run_loop_failure [OF Some] obtain i rest e'
    where "insts = i # rest" and "fst (get_last_match s (id' i) c) = Inl e'"
    by auto
  with assms have False
    by (simp add: get_last_match_def fetch_def Let_def)
  then show ?thesis ..
qed

lemma run_loop_outcome:
  "outcome_of (run_loop s insts c) = None \<or>
   (\<exists>e. outcome_of (run_loop s insts c) = Some (SearchError e))"
proof (cases "outcome_of (run_loop s insts c)")
  case None
  then show ?thesis by simp
next
  case (Some e)
  from run_loop_failure [OF Some] Some show ?thesis by auto
qed

lemma run_loop_returned:
  "outcome_of (run_loop s insts c) = None \<Longrightarrow>
    length (returned (answers s (map id' insts) c)) = length insts"
proof (induction insts arbitrary: c)
  case Nil
  show ?case by simp
next
  case (Cons i rest)
  show ?case
  proof (cases "fst (get_last_match s (id' i) c)")
    case (Inl e)
    with Cons.prems show ?thesis
      by (simp add: run_loop_Cons result_parts del: run_loop.simps(2))
  next
    case (Inr m)
    with Cons.prems Cons.IH [of "snd (get_last_match s (id' i) c)"] show ?thesis
      by (simp add: run_loop_Cons answers_Cons result_parts
          del: run_loop.simps(2) answers.simps(2))
  qed
qed

subsection \<open>The run\<close>

lemma run_rule_loop:
  assumes "is_serial_port_one_logs_available env ctx"
    and "logs (project_id ctx) = Some search"
    and "get_instances env ctx \<noteq> []"
  shows "run_rule env ctx logs c =
    run_loop search (sort_key name (map snd (get_instances env ctx))) c"
  using assms by (simp add: run_rule_def Let_def)

lemma run_rule_cases:
  "run_rule env ctx logs c =
    (if \<not> is_serial_port_one_logs_available env ctx then
       ([add_skipped None ''serial port output is unavailable''], None, c)
     else
       (case logs (project_id ctx) of
          None \<Rightarrow> ([], Some (KeyError (project_id ctx)), c)
        | Some search \<Rightarrow>
            if get_instances env ctx = [] then ([add_skipped None ''No instances found''], None, c)
            else run_loop search (sort_key name (map snd (get_instances env ctx))) c))"
  by (simp add: run_rule_def Let_def split: option.splits)

lemma verdict_instances_simps:
  "verdict_instances [] = []"
  "verdict_instances [add_skipped x msg] = []"
  "verdict_instances [last_match_query i] = []"
  by (simp_all add: verdict_instances_def List.map_filter_simps)

lemma run_rule_verdict_instances:
  "prefix (verdict_instances (calls_of (run_rule env ctx logs c)))
    (sort_key name (map snd (get_instances env ctx)))"
  unfolding run_rule_cases
  by (auto simp: run_loop_verdict_instances verdict_instances_simps result_parts
      split: option.splits)

lemma run_rule_queries:
  "logs (project_id ctx) = Some search \<Longrightarrow>
    cache_of (run_rule env ctx logs c) =
      after_queries
        (map (\<lambda>i. (search, id' i))
          (if is_serial_port_one_logs_available env ctx \<and> get_instances env ctx \<noteq> []
           then sort_key name (map snd (get_instances env ctx)) else []))
        c"
  unfolding run_rule_cases by (auto simp: run_loop_cache result_parts)

lemma one_fetch_per_key_run:
  assumes "one_fetch_per_key c"
  shows "one_fetch_per_key (cache_of (run_rule env ctx logs c))"
proof (cases "logs (project_id ctx)")
  case None
  with assms show ?thesis by (simp add: run_rule_cases result_parts)
next
  case (Some search)
  from run_rule_queries [of logs ctx search env c] Some assms show ?thesis
    by (simp add: one_fetch_per_key_queries)
qed

lemma one_fetch_per_key_runs:
  "one_fetch_per_key c \<Longrightarrow> one_fetch_per_key (after_runs rs c)"
  by (induction rs arbitrary: c) (auto simp: one_fetch_per_key_run)

lemma prepare_rule_lookup:
  "prepare_rule env ctx logs (project_id ctx) =
    Some (new_search env ctx TIME_SYNC_ERROR_MESSAGES (Some filter_str))"
  by (simp add: prepare_rule_def)

lemma sort_key_same_set:
  assumes "set ys = set xs" and "distinct (map f xs)" and "distinct (map f ys)"
  shows "sort_key f ys = sort_key f xs"
proof -
  have inj: "inj_on f (set xs)" and dx: "distinct xs"
    using assms(2) by (simp_all add: distinct_map)
  have dy: "distinct ys" using assms(3) by (simp add: distinct_map)
  have "distinct (map f (sort_key f xs))" and "distinct (map f (sort_key f ys))"
    using inj dx dy assms(1) by (simp_all add: distinct_map)
  moreover have "sorted (map f (sort_key f xs))" and "sorted (map f (sort_key f ys))"
    by simp_all
  moreover have "set (map f (sort_key f ys)) = set (map f (sort_key f xs))"
    using assms(1) by simp
  ultimately have "map f (sort_key f ys) = map f (sort_key f xs)"
    by (intro sorted_distinct_set_unique)
  moreover have "inj_on f (set (sort_key f ys) \<union> set (sort_key f xs))"
    using inj assms(1) by simp
  ultimately show ?thesis by (simp add: inj_on_map_eq_map)
qed

lemma equal_names_keep_dictionary_order:
  assumes "is_serial_port_one_logs_available env ctx"
    and "logs (project_id ctx) \<noteq> None"
    and "outcome_of (run_rule env ctx logs c) = None"
  shows "filter (\<lambda>i. name i = k) (verdict_instances (calls_of (run_rule env ctx logs c))) =
    filter (\<lambda>i. name i = k) (map snd (get_instances env ctx))"
proof -
  have "verdict_instances (calls_of (run_rule env ctx logs c)) =
      sort_key name (map snd (get_instances env ctx))"
    using assms
    by (auto simp: run_rule_cases run_loop_verdict_instances verdict_instances_simps result_parts
        split: option.splits if_splits)
  then show ?thesis by (simp add: sort_key_stable)
qed

lemma sorted_prefix:
  "prefix xs ys \<Longrightarrow> sorted (map f ys) \<Longrightarrow> sorted (map f xs)"
  by (auto simp: prefix_def sorted_append)

subsection \<open>The example projects, evaluated\<close>

lemma project_id_ctx1: "project_id ctx1 = ''p1''"
  by (simp add: ctx1_def)

lemma env_fields:
  "is_serial_port_one_logs_available env1 c"
  "get_instances env1 c = [(''1001'', vm_b), (''1002'', vm_a)]"
  "\<not> is_serial_port_one_logs_available env_unavailable c"
  "get_instances env_unavailable c = [(''1001'', vm_b), (''1002'', vm_a)]"
  "is_serial_port_one_logs_available env_empty c"
  "get_instances env_empty c = []"
  "\<not> is_serial_port_one_logs_available env_unavailable_empty c"
  "get_instances env_unavailable_empty c = []"
  "is_serial_port_one_logs_available env_fetch_error c"
  "get_instances env_fetch_error c = [(''1001'', vm_b), (''1002'', vm_a)]"
  "is_serial_port_one_logs_available env_west_first c"
  "get_instances env_west_first c = [(''2001'', vm_west), (''2002'', vm_east)]"
  "is_serial_port_one_logs_available env_east_first c"
  "get_instances env_east_first c = [(''2002'', vm_east), (''2001'', vm_west)]"
  "is_serial_port_one_logs_available env1_reordered c"
  "get_instances env1_reordered c = [(''1002'', vm_a), (''1001'', vm_b)]"
  by (simp_all add: env1_def env_unavailable_def env_empty_def env_unavailable_empty_def
      env_fetch_error_def env_west_first_def env_east_first_def env1_reordered_def)

lemma vm_a_neq_vm_b: "vm_a \<noteq> vm_b"
  by (simp add: vm_a_def vm_b_def)

lemma sorted_env1: "sort_key name (map snd (get_instances env1 ctx1)) = [vm_a, vm_b]"
  by code_simp

lemma answers_env1:
  "answers (new_search env1 ctx1 TIME_SYNC_ERROR_MESSAGES (Some filter_str)) [''1002'', ''1001'']
      new_cache
    = [Inr None, Inr (Some entry_a)]"
  by code_simp

lemma calls_env1:
  "calls_of (run_rule env1 ctx1 (prepare_rule env1 ctx1 Map.empty) new_cache) =
    [last_match_query ''1002'', add_ok vm_a,
     last_match_query ''1001'', add_failed vm_b (failed_message vm_b entry_a)]"
  by code_simp

lemma outcome_env1:
  "outcome_of (run_rule env1 ctx1 (prepare_rule env1 ctx1 Map.empty) new_cache) = None"
  by code_simp

lemma two_registrations_one_fetch:
  "fetch_log
    (after_runs
      [(env1, ctx1, prepare_rule env1 ctx1 Map.empty),
       (env1, ctx1, prepare_rule env1 ctx1 (prepare_rule env1 ctx1 Map.empty))]
      new_cache)
    = [(ctx1, TIME_SYNC_ERROR_MESSAGES, Some filter_str)]"
  by code_simp

lemma calls_fetch_error:
  "calls_of (run_rule env_fetch_error ctx1 (prepare_rule env_fetch_error ctx1 Map.empty) new_cache)
    = [last_match_query ''1002'']"
  "outcome_of (run_rule env_fetch_error ctx1 (prepare_rule env_fetch_error ctx1 Map.empty) new_cache)
    = Some (SearchError FetchError)"
  by code_simp+

lemma calls_same_name:
  "report_calls (calls_of
      (run_rule env_west_first ctx1 (prepare_rule env_west_first ctx1 Map.empty) new_cache))
    = [add_ok vm_west, add_ok vm_east]"
  "report_calls (calls_of
      (run_rule env_east_first ctx1 (prepare_rule env_east_first ctx1 Map.empty) new_cache))
    = [add_ok vm_east, add_ok vm_west]"
  by code_simp+

subsection \<open>The filter and the patterns\<close>

text \<open>
  The filter has a term for ten of the eleven patterns: a line that holds one of these
  ten in its regex reading (the escape removed) satisfies the filter. The Chrony message
  is the one pattern left out; an instance that logs it is reported as ok by the rule,
  and would be found by a search without the filter. A line that holds the eighth pattern
  character by character, with its backslash, matches in the substring reading of the
  spec and does not satisfy the filter either.
\<close>

lemma quoted_terms_filter_str:
  "quoted_terms filter_str =
    [''time may be out of sync'', ''System clock is unsynchronized'', ''Time drift detected'',
     ''no servers can be used'', ''time reset'', ''Time offset too large'',
     ''Can'' @ [CHR 0x27] @ ''t synchronise'', ''Clock skew detected'', ''Clock skew too great'',
     ''Could not receive latest log timestamp'']"
  by code_simp

lemma contains_trans: "contains q p \<Longrightarrow> contains p line \<Longrightarrow> contains q line"
  unfolding contains_sublist by (rule sublist_order.order_trans)

lemma other_patterns_hold_a_term:
  "list_all
    (\<lambda>p. p = ''System clock unsynchronized'' \<or>
      list_ex (\<lambda>q. contains q (unescape p)) (quoted_terms filter_str))
    TIME_SYNC_ERROR_MESSAGES"
  by code_simp

lemma filter_covers_other_patterns:
  assumes "p \<in> set TIME_SYNC_ERROR_MESSAGES"
    and "p \<noteq> ''System clock unsynchronized''"
    and "contains (unescape p) line"
  shows "satisfies_filter filter_str line"
proof -
  from other_patterns_hold_a_term assms(1,2)
  have "list_ex (\<lambda>q. contains q (unescape p)) (quoted_terms filter_str)"
    by (auto simp: list_all_iff)
  then obtain q where "q \<in> set (quoted_terms filter_str)" and "contains q (unescape p)"
    by (auto simp: list_ex_iff)
  with assms(3) show ?thesis
    unfolding satisfies_filter_def list_ex_iff by (blast intro: contains_trans)
qed

lemma chrony_line_reported_ok:
  "calls_of (run_rule env_chrony ctx1 (prepare_rule env_chrony ctx1 Map.empty) new_cache) =
    [last_match_query ''1002'', add_ok vm_a]"
  by code_simp

lemma chrony_line_found_without_filter:
  "fst (get_last_match (new_search env_chrony ctx1 TIME_SYNC_ERROR_MESSAGES None) ''1002''
      new_cache) = Inr (Some entry_chrony)"
  by code_simp

lemma literal_backslash_line_dropped:
  "matches TIME_SYNC_ERROR_MESSAGES
     (''Can'' @ [CHR 0x5C, CHR 0x27] @ ''t synchronise: no selectable sources'') \<and>
   \<not> satisfies_filter filter_str
     (''Can'' @ [CHR 0x5C, CHR 0x27] @ ''t synchronise: no selectable sources'')"
  by code_simp

section \<open>The claims\<close>

subsection \<open>C1: the pre-filter and the patterns\<close>

text \<open>
  Claim C1 says that the pre-filter only removes irrelevant lines: every line that matches
  one of the patterns of \<open>TIME_SYNC_ERROR_MESSAGES\<close> contains one of the ten quoted terms
  of \<open>filter_str\<close>. The list has eleven patterns and the filter ten terms: the Chrony
  message \<^verbatim>\<open>System clock unsynchronized\<close> has no term of its own and contains none of the
  ten. The line that consists of this message matches the patterns and does not satisfy
  the filter, so the claim fails at this line.
\<close>

theorem prefilter_drops_chrony_line:
  "matches TIME_SYNC_ERROR_MESSAGES ''System clock unsynchronized'' \<and>
   \<not> satisfies_filter filter_str ''System clock unsynchronized''"
  by code_simp

subsection \<open>C2: no instances in scope\<close>

text \<open>
  The availability check comes first in \<open>run_rule\<close>. On the project with no instance the
  one skip says \<^verbatim>\<open>No instances found\<close> when the serial-port logs are available and
  \<^verbatim>\<open>serial port output is unavailable\<close> when they are not: the skip is not independent
  of the availability.
\<close>

theorem no_instances_skip_counterexample:
  "get_instances env_unavailable_empty ctx1 = [] \<and>
   get_instances env_empty ctx1 = [] \<and>
   calls_of (run_rule env_empty ctx1 (prepare_rule env_empty ctx1 Map.empty) new_cache) =
     [add_skipped None ''No instances found''] \<and>
   calls_of (run_rule env_unavailable_empty ctx1
       (prepare_rule env_unavailable_empty ctx1 Map.empty) new_cache) =
     [add_skipped None ''serial port output is unavailable''] \<and>
   calls_of (run_rule env_unavailable_empty ctx1
       (prepare_rule env_unavailable_empty ctx1 Map.empty) new_cache) \<noteq>
     [add_skipped None ''No instances found'']"
  by (simp add: run_rule_cases env_fields prepare_rule_lookup result_parts)

text \<open>
  Claim C2, as the code has it: for every context with no instance in scope, in which the
  serial-port logs are available and a search object is registered for the project,
  \<open>run_rule\<close> makes exactly one call, the skip with no instance and the message
  \<^verbatim>\<open>No instances found\<close>, returns, and leaves the cache as it was.
\<close>

theorem no_instances_skip:
  assumes "get_instances env ctx = []"
    and "is_serial_port_one_logs_available env ctx"
    and "logs (project_id ctx) = Some search"
  shows "run_rule env ctx logs c = ([add_skipped None ''No instances found''], None, c)"
  using assms by (simp add: run_rule_def)

text \<open>
  The project with no instance and available logs, after \<open>prepare_rule\<close>.
\<close>

theorem no_instances_skip_witness:
  "get_instances env_empty ctx1 = [] \<and>
   is_serial_port_one_logs_available env_empty ctx1 \<and>
   prepare_rule env_empty ctx1 Map.empty (project_id ctx1) =
     Some (new_search env_empty ctx1 TIME_SYNC_ERROR_MESSAGES (Some filter_str)) \<and>
   run_rule env_empty ctx1 (prepare_rule env_empty ctx1 Map.empty) new_cache =
     ([add_skipped None ''No instances found''], None, new_cache)"
proof -
  have h1: "get_instances env_empty ctx1 = []" by (simp add: env_fields)
  have h2: "is_serial_port_one_logs_available env_empty ctx1" by (simp add: env_fields)
  have h3: "prepare_rule env_empty ctx1 Map.empty (project_id ctx1) =
     Some (new_search env_empty ctx1 TIME_SYNC_ERROR_MESSAGES (Some filter_str))"
    by (rule prepare_rule_lookup)
  from no_instances_skip
    [of env_empty ctx1 "prepare_rule env_empty ctx1 Map.empty" _ new_cache, OF h1 h2 h3]
    h1 h2 h3
  show ?thesis by blast
qed

subsection \<open>C3: at most one fetch\<close>

text \<open>
  Claim C3: in a lint run, which starts with the new cache, the bulk fetch-and-scan
  happens at most once for every key (SearchContext and PatternSet), however many
  instances are queried and however many rules share the context. Whatever sequence
  \<open>rs\<close> of runs of the rule follows, each in its environment and on the dictionary of the
  rule that runs (so on whatever registrations), and whatever sequence \<open>qs\<close> of queries by
  whatever search objects, no key \<open>k\<close> is in the log of fetches more than once.
  \<open>prepare_rule\<close> registers one search object under the project, with the key of the
  context, the patterns and the filter; and a run of \<open>run_rule\<close> on a dictionary that
  holds a search object for the project does nothing to the cache but put the queries of
  its sorted instances to that one object.
\<close>

theorem single_fetch_per_key:
  "count_list (fetch_log (after_runs rs new_cache)) k \<le> 1 \<and>
   count_list (fetch_log (after_queries qs new_cache)) k \<le> 1 \<and>
   prepare_rule env ctx logs (project_id ctx) =
     Some (new_search env ctx TIME_SYNC_ERROR_MESSAGES (Some filter_str)) \<and>
   key_of (new_search env ctx TIME_SYNC_ERROR_MESSAGES (Some filter_str)) =
     (ctx, TIME_SYNC_ERROR_MESSAGES, Some filter_str) \<and>
   (logs' (project_id ctx) = Some search \<longrightarrow>
     cache_of (run_rule env' ctx logs' c) =
       after_queries
         (map (\<lambda>i. (search, id' i))
           (if is_serial_port_one_logs_available env' ctx \<and> get_instances env' ctx \<noteq> []
            then sort_key name (map snd (get_instances env' ctx)) else []))
         c)"
proof (intro conjI impI)
  have "one_fetch_per_key (after_runs rs new_cache)"
    by (simp add: one_fetch_per_key_runs one_fetch_per_key_new)
  then have "distinct (fetch_log (after_runs rs new_cache))"
    by (simp add: one_fetch_per_key_def)
  then show "count_list (fetch_log (after_runs rs new_cache)) k \<le> 1"
    by (rule distinct_count_list)
  have "one_fetch_per_key (after_queries qs new_cache)"
    by (simp add: one_fetch_per_key_queries one_fetch_per_key_new)
  then have "distinct (fetch_log (after_queries qs new_cache))"
    by (simp add: one_fetch_per_key_def)
  then show "count_list (fetch_log (after_queries qs new_cache)) k \<le> 1"
    by (rule distinct_count_list)
  show "prepare_rule env ctx logs (project_id ctx) =
     Some (new_search env ctx TIME_SYNC_ERROR_MESSAGES (Some filter_str))"
    by (rule prepare_rule_lookup)
  show "key_of (new_search env ctx TIME_SYNC_ERROR_MESSAGES (Some filter_str)) =
     (ctx, TIME_SYNC_ERROR_MESSAGES, Some filter_str)"
    by (simp add: key_of_def new_search_def)
next
  assume "logs' (project_id ctx) = Some search"
  then show "cache_of (run_rule env' ctx logs' c) =
       after_queries
         (map (\<lambda>i. (search, id' i))
           (if is_serial_port_one_logs_available env' ctx \<and> get_instances env' ctx \<noteq> []
            then sort_key name (map snd (get_instances env' ctx)) else []))
         c"
    by (rule run_rule_queries)
qed

text \<open>
  Scenario E of the spec on the project with two instances: a registration and a run,
  then a second registration and a second run. The log of fetches holds the key once,
  and the first run puts its two queries to the registered object.
\<close>

theorem single_fetch_per_key_witness:
  "prepare_rule env1 ctx1 Map.empty (project_id ctx1) =
     Some (new_search env1 ctx1 TIME_SYNC_ERROR_MESSAGES (Some filter_str)) \<and>
   fetch_log
     (after_runs
       [(env1, ctx1, prepare_rule env1 ctx1 Map.empty),
        (env1, ctx1, prepare_rule env1 ctx1 (prepare_rule env1 ctx1 Map.empty))]
       new_cache)
     = [(ctx1, TIME_SYNC_ERROR_MESSAGES, Some filter_str)] \<and>
   count_list
     (fetch_log
       (after_runs
         [(env1, ctx1, prepare_rule env1 ctx1 Map.empty),
          (env1, ctx1, prepare_rule env1 ctx1 (prepare_rule env1 ctx1 Map.empty))]
         new_cache))
     (ctx1, TIME_SYNC_ERROR_MESSAGES, Some filter_str) \<le> 1 \<and>
   cache_of (run_rule env1 ctx1 (prepare_rule env1 ctx1 Map.empty) new_cache) =
     after_queries
       [(new_search env1 ctx1 TIME_SYNC_ERROR_MESSAGES (Some filter_str), ''1002''),
        (new_search env1 ctx1 TIME_SYNC_ERROR_MESSAGES (Some filter_str), ''1001'')]
       new_cache"
proof -
  let ?s = "new_search env1 ctx1 TIME_SYNC_ERROR_MESSAGES (Some filter_str)"
  let ?logs = "prepare_rule env1 ctx1 Map.empty"
  let ?rs = "[(env1, ctx1, ?logs), (env1, ctx1, prepare_rule env1 ctx1 ?logs)]"
  note inst = single_fetch_per_key
    [of ?rs "(ctx1, TIME_SYNC_ERROR_MESSAGES, Some filter_str)" "[]" env1 ctx1 Map.empty
      ?logs ?s env1 new_cache]
  have h1: "is_serial_port_one_logs_available env1 ctx1" by (simp add: env_fields)
  have h3: "get_instances env1 ctx1 \<noteq> []" by (simp add: env_fields)
  from inst have reg: "?logs (project_id ctx1) = Some ?s" by blast
  from inst have cnt: "count_list (fetch_log (after_runs ?rs new_cache))
      (ctx1, TIME_SYNC_ERROR_MESSAGES, Some filter_str) \<le> 1" by blast
  from inst reg have "cache_of (run_rule env1 ctx1 ?logs new_cache) =
       after_queries
         (map (\<lambda>i. (?s, id' i))
           (if is_serial_port_one_logs_available env1 ctx1 \<and> get_instances env1 ctx1 \<noteq> []
            then sort_key name (map snd (get_instances env1 ctx1)) else []))
         new_cache" by blast
  then have run: "cache_of (run_rule env1 ctx1 ?logs new_cache) =
      after_queries [(?s, ''1002''), (?s, ''1001'')] new_cache"
    using h1 h3 by (simp only: sorted_env1 if_True simp_thms) (simp add: vm_a_def vm_b_def)
  from reg cnt run two_registrations_one_fetch show ?thesis by blast
qed

subsection \<open>C4: the verdict follows the answer\<close>

text \<open>
  Claim C4: when the serial-port logs are available, a search object is registered and
  there is an instance in scope, the calls on the report are, in order, the verdicts of
  the sorted instances, each on the answer \<open>get_last_match\<close> returned for it, up to the
  first query that fails; in a run that returns, every instance has its answer and its
  verdict. The verdict on no match is \<open>add_ok\<close>; the verdict on a match \<open>m\<close> is
  \<open>add_failed\<close> with a message that contains the timestamp of \<open>m\<close>, the text of \<open>m\<close> and
  the remediation hint.
\<close>

theorem verdict_per_answer:
  assumes "is_serial_port_one_logs_available env ctx"
    and "logs (project_id ctx) = Some search"
    and "get_instances env ctx \<noteq> []"
  shows "report_calls (calls_of (run_rule env ctx logs c)) =
      map2 verdict (sort_key name (map snd (get_instances env ctx)))
        (returned
          (answers search (map id' (sort_key name (map snd (get_instances env ctx)))) c)) \<and>
    length (answers search (map id' (sort_key name (map snd (get_instances env ctx)))) c) =
      length (get_instances env ctx) \<and>
    (outcome_of (run_rule env ctx logs c) = None \<longrightarrow>
      length (returned
          (answers search (map id' (sort_key name (map snd (get_instances env ctx)))) c)) =
        length (get_instances env ctx)) \<and>
    verdict instance None = add_ok instance \<and>
    verdict instance (Some m) = add_failed instance (failed_message instance m) \<and>
    contains (timestamp_iso m) (failed_message instance m) \<and>
    contains (text m) (failed_message instance m) \<and>
    contains ''Verify that the instance can reach metadata.google.internal and that NTP/Chrony services are properly configured.''
      (failed_message instance m)"
proof -
  note loop = run_rule_loop [of env ctx logs search c, OF assms]
  have "outcome_of (run_rule env ctx logs c) = None \<Longrightarrow>
      length (returned
          (answers search (map id' (sort_key name (map snd (get_instances env ctx)))) c)) =
        length (get_instances env ctx)"
    using run_loop_returned [of search "sort_key name (map snd (get_instances env ctx))" c]
    by (simp add: loop)
  then show ?thesis
    by (simp add: loop run_loop_reports length_answers verdict_def
        failed_message_timestamp failed_message_text failed_message_hint)
qed

text \<open>
  Scenarios A and B of the spec: \<open>vm-b\<close> logs the line of scenario A and is reported as
  failed with a message that holds the timestamp and the line; \<open>vm-a\<close> is reported as ok.
\<close>

theorem verdict_per_answer_witness:
  "is_serial_port_one_logs_available env1 ctx1 \<and>
   prepare_rule env1 ctx1 Map.empty (project_id ctx1) =
     Some (new_search env1 ctx1 TIME_SYNC_ERROR_MESSAGES (Some filter_str)) \<and>
   get_instances env1 ctx1 \<noteq> [] \<and>
   answers (new_search env1 ctx1 TIME_SYNC_ERROR_MESSAGES (Some filter_str))
     [''1002'', ''1001''] new_cache = [Inr None, Inr (Some entry_a)] \<and>
   report_calls (calls_of (run_rule env1 ctx1 (prepare_rule env1 ctx1 Map.empty) new_cache)) =
     [add_ok vm_a, add_failed vm_b (failed_message vm_b entry_a)] \<and>
   contains ''2025-01-01T00:00:00Z'' (failed_message vm_b entry_a) \<and>
   contains ''System clock is unsynchronized'' (failed_message vm_b entry_a)"
proof -
  let ?s = "new_search env1 ctx1 TIME_SYNC_ERROR_MESSAGES (Some filter_str)"
  let ?logs = "prepare_rule env1 ctx1 Map.empty"
  have h1: "is_serial_port_one_logs_available env1 ctx1" by (simp add: env_fields)
  have h2: "?logs (project_id ctx1) = Some ?s" by (rule prepare_rule_lookup)
  have h3: "get_instances env1 ctx1 \<noteq> []" by (simp add: env_fields)
  note inst = verdict_per_answer [of env1 ctx1 ?logs ?s new_cache vm_b entry_a, OF h1 h2 h3]
  have ids: "map id' [vm_a, vm_b] = [''1002'', ''1001'']"
    by (simp add: vm_a_def vm_b_def)
  from inst have "report_calls (calls_of (run_rule env1 ctx1 ?logs new_cache)) =
      map2 verdict [vm_a, vm_b] (returned (answers ?s [''1002'', ''1001''] new_cache))"
    by (simp only: sorted_env1 ids)
  then have rep: "report_calls (calls_of (run_rule env1 ctx1 ?logs new_cache)) =
      [add_ok vm_a, add_failed vm_b (failed_message vm_b entry_a)]"
    by (simp only: answers_env1) (simp add: verdict_def)
  from inst have ts: "contains (timestamp_iso entry_a) (failed_message vm_b entry_a)"
    and tx: "contains (text entry_a) (failed_message vm_b entry_a)" by blast+
  have "timestamp_iso entry_a = ''2025-01-01T00:00:00Z''"
    and "text entry_a = ''System clock is unsynchronized''"
    by (simp_all add: entry_a_def)
  with ts tx h1 h2 h3 rep answers_env1 show ?thesis by simp
qed

subsection \<open>C5: serial-port logs unavailable\<close>

text \<open>
  Claim C5: when the serial-port logs are unavailable, \<open>run_rule\<close> makes exactly one call,
  the skip with no instance, and returns; there is no verdict and no query, and the cache
  is as it was.
\<close>

theorem unavailable_single_skip:
  assumes "\<not> is_serial_port_one_logs_available env ctx"
  shows "run_rule env ctx logs c =
      ([add_skipped None ''serial port output is unavailable''], None, c) \<and>
    filter is_query (calls_of (run_rule env ctx logs c)) = [] \<and>
    verdict_instances (calls_of (run_rule env ctx logs c)) = []"
  using assms by (simp add: run_rule_def verdict_instances_simps result_parts)

text \<open>
  The project with two instances and no serial-port logs.
\<close>

theorem unavailable_single_skip_witness:
  "\<not> is_serial_port_one_logs_available env_unavailable ctx1 \<and>
   get_instances env_unavailable ctx1 = [(''1001'', vm_b), (''1002'', vm_a)] \<and>
   run_rule env_unavailable ctx1 (prepare_rule env_unavailable ctx1 Map.empty) new_cache =
     ([add_skipped None ''serial port output is unavailable''], None, new_cache) \<and>
   filter is_query
     (calls_of (run_rule env_unavailable ctx1 (prepare_rule env_unavailable ctx1 Map.empty)
        new_cache)) = [] \<and>
   verdict_instances
     (calls_of (run_rule env_unavailable ctx1 (prepare_rule env_unavailable ctx1 Map.empty)
        new_cache)) = []"
proof -
  have h: "\<not> is_serial_port_one_logs_available env_unavailable ctx1" by (simp add: env_fields)
  have i: "get_instances env_unavailable ctx1 = [(''1001'', vm_b), (''1002'', vm_a)]"
    by (simp add: env_fields)
  from unavailable_single_skip
    [OF h, of "prepare_rule env_unavailable ctx1 Map.empty" new_cache] h i
  show ?thesis by blast
qed

subsection \<open>C6: one verdict per instance\<close>

text \<open>
  The loop does not catch a failure of \<open>get_last_match\<close>. On the project with two instances
  and a log source whose fetch fails, the run reaches the loop, puts its first query and
  ends with \<^verbatim>\<open>FetchError\<close>: instance \<open>vm-b\<close>, which is in scope, has no verdict.
\<close>

theorem one_verdict_counterexample:
  "is_serial_port_one_logs_available env_fetch_error ctx1 \<and>
   map snd (get_instances env_fetch_error ctx1) = [vm_b, vm_a] \<and>
   calls_of (run_rule env_fetch_error ctx1 (prepare_rule env_fetch_error ctx1 Map.empty)
       new_cache) = [last_match_query ''1002''] \<and>
   outcome_of (run_rule env_fetch_error ctx1 (prepare_rule env_fetch_error ctx1 Map.empty)
       new_cache) = Some (SearchError FetchError) \<and>
   length (filter (is_failed_for vm_b)
       (calls_of (run_rule env_fetch_error ctx1 (prepare_rule env_fetch_error ctx1 Map.empty)
          new_cache))) +
     length (filter (is_ok_for vm_b)
       (calls_of (run_rule env_fetch_error ctx1 (prepare_rule env_fetch_error ctx1 Map.empty)
          new_cache))) = 0"
  by (simp add: calls_fetch_error env_fields)

text \<open>
  Claim C6, as the code has it: in a run that reaches the loop (logs available, search
  registered), where the instances in scope are pairwise different, every instance in
  scope gets exactly one verdict when the run returns: the \<open>add_failed\<close> calls and the
  \<open>add_ok\<close> calls about it are one call together, the report gets as many calls as there
  are instances, and the instances of these calls are the instances in scope, sorted.
  When the run ends with a failure of the search, the instance has no verdict. No
  instance ever has more than one.
\<close>

theorem one_verdict_per_instance:
  assumes "is_serial_port_one_logs_available env ctx"
    and "logs (project_id ctx) = Some search"
    and "distinct (map snd (get_instances env ctx))"
    and "instance \<in> set (map snd (get_instances env ctx))"
  shows "length (filter (is_failed_for instance) (calls_of (run_rule env ctx logs c))) +
      length (filter (is_ok_for instance) (calls_of (run_rule env ctx logs c))) =
        (if outcome_of (run_rule env ctx logs c) = None then 1 else 0) \<and>
    (outcome_of (run_rule env ctx logs c) = None \<longrightarrow>
      length (report_calls (calls_of (run_rule env ctx logs c))) =
        length (get_instances env ctx) \<and>
      verdict_instances (report_calls (calls_of (run_rule env ctx logs c))) =
        sort_key name (map snd (get_instances env ctx)))"
proof -
  let ?insts = "sort_key name (map snd (get_instances env ctx))"
  let ?r = "run_rule env ctx logs c"
  from assms(4) have ne: "get_instances env ctx \<noteq> []" by auto
  have run: "?r = run_loop search ?insts c"
    using assms(1,2) ne by (rule run_rule_loop)
  have one: "count_list ?insts instance = 1"
    using assms(3,4) by (intro count_list_distinct) simp_all
  have vi: "verdict_instances (report_calls cs) = verdict_instances cs" for cs
  proof (induction cs)
    case Nil
    show ?case by (simp add: report_calls_def)
  next
    case (Cons a cs)
    then show ?case
      by (cases a) (simp_all add: verdict_instances_def report_calls_def List.map_filter_simps)
  qed
  show ?thesis
  proof (cases "outcome_of ?r")
    case None
    then have all: "verdict_instances (calls_of ?r) = ?insts"
      using run_loop_verdict_instances [of search ?insts c] by (simp add: run)
    have "length (report_calls (calls_of ?r)) = length (get_instances env ctx)"
      using None run_loop_returned [of search ?insts c]
      by (simp add: run run_loop_reports)
    with None all one show ?thesis
      by (simp add: verdict_count vi)
  next
    case (Some e)
    from Some have out: "outcome_of (run_loop search ?insts c) = Some e"
      unfolding run .
    from run_loop_failure [OF out] obtain i :: Instance
      where "calls_of (run_loop search ?insts c) = [last_match_query (id' i)]"
      by blast
    then have "calls_of ?r = [last_match_query (id' i)]"
      unfolding run .
    with Some show ?thesis by simp
  qed
qed

text \<open>
  Instance \<open>vm-b\<close> of the project with two instances, in the run that returns.
\<close>

theorem one_verdict_per_instance_witness:
  "is_serial_port_one_logs_available env1 ctx1 \<and>
   prepare_rule env1 ctx1 Map.empty (project_id ctx1) =
     Some (new_search env1 ctx1 TIME_SYNC_ERROR_MESSAGES (Some filter_str)) \<and>
   distinct (map snd (get_instances env1 ctx1)) \<and>
   vm_b \<in> set (map snd (get_instances env1 ctx1)) \<and>
   outcome_of (run_rule env1 ctx1 (prepare_rule env1 ctx1 Map.empty) new_cache) = None \<and>
   length (filter (is_failed_for vm_b)
       (calls_of (run_rule env1 ctx1 (prepare_rule env1 ctx1 Map.empty) new_cache))) +
     length (filter (is_ok_for vm_b)
       (calls_of (run_rule env1 ctx1 (prepare_rule env1 ctx1 Map.empty) new_cache))) = 1 \<and>
   length (report_calls
       (calls_of (run_rule env1 ctx1 (prepare_rule env1 ctx1 Map.empty) new_cache))) = 2 \<and>
   verdict_instances (report_calls
       (calls_of (run_rule env1 ctx1 (prepare_rule env1 ctx1 Map.empty) new_cache))) =
     [vm_a, vm_b]"
proof -
  let ?s = "new_search env1 ctx1 TIME_SYNC_ERROR_MESSAGES (Some filter_str)"
  let ?logs = "prepare_rule env1 ctx1 Map.empty"
  let ?r = "run_rule env1 ctx1 ?logs new_cache"
  have h1: "is_serial_port_one_logs_available env1 ctx1" by (simp add: env_fields)
  have h2: "?logs (project_id ctx1) = Some ?s" by (rule prepare_rule_lookup)
  have h3: "distinct (map snd (get_instances env1 ctx1))"
    using vm_a_neq_vm_b by (auto simp: env_fields)
  have h4: "vm_b \<in> set (map snd (get_instances env1 ctx1))" by (simp add: env_fields)
  have len: "length (get_instances env1 ctx1) = 2" by (simp add: env_fields)
  note out = outcome_env1
  note inst = one_verdict_per_instance [of env1 ctx1 ?logs ?s vm_b new_cache, OF h1 h2 h3 h4]
  from inst out have one:
    "length (filter (is_failed_for vm_b) (calls_of ?r)) +
     length (filter (is_ok_for vm_b) (calls_of ?r)) = 1"
    by simp
  from inst out have two: "length (report_calls (calls_of ?r)) = 2"
    unfolding len by blast
  from inst out have three: "verdict_instances (report_calls (calls_of ?r)) = [vm_a, vm_b]"
    unfolding sorted_env1 by blast
  from h1 h2 h3 h4 out one two three show ?thesis by blast
qed

subsection \<open>C7: verdicts in the order of the names\<close>

text \<open>
  The sort key is the name alone and the sort is stable. Two dictionaries of the same two
  instances, which have one name, give the verdicts in two orders: the order is not
  fixed by the set of instances.
\<close>

theorem verdict_order_counterexample:
  "set (get_instances env_east_first ctx1) = set (get_instances env_west_first ctx1) \<and>
   name vm_west = name vm_east \<and>
   report_calls (calls_of
      (run_rule env_west_first ctx1 (prepare_rule env_west_first ctx1 Map.empty) new_cache))
    = [add_ok vm_west, add_ok vm_east] \<and>
   report_calls (calls_of
      (run_rule env_east_first ctx1 (prepare_rule env_east_first ctx1 Map.empty) new_cache))
    = [add_ok vm_east, add_ok vm_west] \<and>
   [add_ok vm_west, add_ok vm_east] \<noteq> [add_ok vm_east, add_ok vm_west]"
  by (simp add: calls_same_name env_fields) (auto simp: vm_west_def vm_east_def)

text \<open>
  Claim C7, as the code has it: the instances of the verdicts of a run are in ascending
  order of their names; they are the first of the instances in scope, stably sorted by
  name, and all of them when the run reaches the loop and returns. Where the names of
  the instances in scope are pairwise different, the run is the same for every
  dictionary of the same instances; instances of one name keep the order of the
  dictionary.
\<close>

theorem verdicts_sorted_by_name:
  "sorted (map name (verdict_instances (calls_of (run_rule env ctx logs c)))) \<and>
   prefix (verdict_instances (calls_of (run_rule env ctx logs c)))
     (sort_key name (map snd (get_instances env ctx))) \<and>
   (is_serial_port_one_logs_available env ctx \<and> logs (project_id ctx) \<noteq> None \<and>
    outcome_of (run_rule env ctx logs c) = None \<longrightarrow>
      verdict_instances (calls_of (run_rule env ctx logs c)) =
        sort_key name (map snd (get_instances env ctx))) \<and>
   (set (map snd (get_instances env' ctx)) = set (map snd (get_instances env ctx)) \<and>
    distinct (map name (map snd (get_instances env ctx))) \<and>
    distinct (map name (map snd (get_instances env' ctx))) \<and>
    is_serial_port_one_logs_available env' ctx = is_serial_port_one_logs_available env ctx \<longrightarrow>
      run_rule env' ctx logs c = run_rule env ctx logs c)"
proof (intro conjI impI)
  show p: "prefix (verdict_instances (calls_of (run_rule env ctx logs c)))
     (sort_key name (map snd (get_instances env ctx)))"
    by (rule run_rule_verdict_instances)
  from sorted_prefix [OF p, of name]
  show "sorted (map name (verdict_instances (calls_of (run_rule env ctx logs c))))"
    by simp
next
  assume "is_serial_port_one_logs_available env ctx \<and> logs (project_id ctx) \<noteq> None \<and>
    outcome_of (run_rule env ctx logs c) = None"
  then show "verdict_instances (calls_of (run_rule env ctx logs c)) =
        sort_key name (map snd (get_instances env ctx))"
    by (auto simp: run_rule_cases run_loop_verdict_instances verdict_instances_simps result_parts
        split: option.splits if_splits)
next
  assume a: "set (map snd (get_instances env' ctx)) = set (map snd (get_instances env ctx)) \<and>
    distinct (map name (map snd (get_instances env ctx))) \<and>
    distinct (map name (map snd (get_instances env' ctx))) \<and>
    is_serial_port_one_logs_available env' ctx = is_serial_port_one_logs_available env ctx"
  then have same: "sort_key name (map snd (get_instances env' ctx)) =
      sort_key name (map snd (get_instances env ctx))"
    by (intro sort_key_same_set) simp_all
  from a have "set (get_instances env' ctx) = {} \<longleftrightarrow> set (get_instances env ctx) = {}"
    by (metis image_is_empty set_map)
  then have "get_instances env' ctx = [] \<longleftrightarrow> get_instances env ctx = []"
    by simp
  with a same show "run_rule env' ctx logs c = run_rule env ctx logs c"
    by (cases "logs (project_id ctx)") (simp_all add: run_rule_cases)
qed

text \<open>
  The project with two instances of different names, and its dictionary in the other
  order: one run, with the verdicts in the order \<open>vm-a\<close>, \<open>vm-b\<close>.
\<close>

theorem verdicts_sorted_by_name_witness:
  "set (map snd (get_instances env1_reordered ctx1)) = set (map snd (get_instances env1 ctx1)) \<and>
   distinct (map name (map snd (get_instances env1 ctx1))) \<and>
   distinct (map name (map snd (get_instances env1_reordered ctx1))) \<and>
   is_serial_port_one_logs_available env1_reordered ctx1 =
     is_serial_port_one_logs_available env1 ctx1 \<and>
   run_rule env1_reordered ctx1 (prepare_rule env1 ctx1 Map.empty) new_cache =
     run_rule env1 ctx1 (prepare_rule env1 ctx1 Map.empty) new_cache \<and>
   verdict_instances (calls_of (run_rule env1 ctx1 (prepare_rule env1 ctx1 Map.empty) new_cache))
     = [vm_a, vm_b] \<and>
   map name [vm_a, vm_b] = [''vm-a'', ''vm-b''] \<and>
   sorted (map name
     (verdict_instances (calls_of (run_rule env1 ctx1 (prepare_rule env1 ctx1 Map.empty) new_cache))))"
proof -
  let ?logs = "prepare_rule env1 ctx1 Map.empty"
  note inst = verdicts_sorted_by_name [of env1 ctx1 ?logs new_cache env1_reordered]
  have h1: "set (map snd (get_instances env1_reordered ctx1)) =
      set (map snd (get_instances env1 ctx1))"
    by (auto simp: env_fields)
  have h2: "distinct (map name (map snd (get_instances env1 ctx1)))"
    by (simp add: env_fields vm_a_def vm_b_def)
  have h3: "distinct (map name (map snd (get_instances env1_reordered ctx1)))"
    by (simp add: env_fields vm_a_def vm_b_def)
  have h4: "is_serial_port_one_logs_available env1_reordered ctx1 =
     is_serial_port_one_logs_available env1 ctx1"
    by (simp add: env_fields)
  have h5: "is_serial_port_one_logs_available env1 ctx1" by (simp add: env_fields)
  have h6: "?logs (project_id ctx1) \<noteq> None" by (simp add: prepare_rule_lookup)
  from inst h1 h2 h3 h4
  have same: "run_rule env1_reordered ctx1 ?logs new_cache = run_rule env1 ctx1 ?logs new_cache"
    by blast
  from inst h5 h6 outcome_env1
  have "verdict_instances (calls_of (run_rule env1 ctx1 ?logs new_cache)) =
      sort_key name (map snd (get_instances env1 ctx1))"
    by blast
  then have vi: "verdict_instances (calls_of (run_rule env1 ctx1 ?logs new_cache)) = [vm_a, vm_b]"
    by (simp only: sorted_env1)
  from inst
  have srt: "sorted (map name (verdict_instances (calls_of (run_rule env1 ctx1 ?logs new_cache))))"
    by blast
  have names: "map name [vm_a, vm_b] = [''vm-a'', ''vm-b'']"
    by (simp add: vm_a_def vm_b_def)
  from h1 h2 h3 h4 same vi names srt show ?thesis by blast
qed

subsection \<open>C8: \<open>prepare_rule\<close> twice\<close>

text \<open>
  Claim C8: \<open>prepare_rule\<close> is idempotent. Called twice in succession for a context, it
  leaves the dictionary that one call leaves: the project's entry is a newly built search
  object either way, and the cache is not touched.
\<close>

theorem prepare_rule_idempotent:
  "prepare_rule env ctx (prepare_rule env ctx logs) = prepare_rule env ctx logs"
  by (simp add: prepare_rule_def)

subsection \<open>C9: \<open>get_last_match\<close> twice\<close>

text \<open>
  Claim C9: \<open>get_last_match\<close> is idempotent per instance. The second of two calls for an
  instance id gives what the first gave (the same entry, the same ``no match'' or the
  same kept failure), leaves the cache as the first left it, and fetches nothing.
\<close>

theorem get_last_match_idempotent:
  "fst (get_last_match s i (snd (get_last_match s i c))) = fst (get_last_match s i c) \<and>
   snd (get_last_match s i (snd (get_last_match s i c))) = snd (get_last_match s i c) \<and>
   fetch_log (snd (get_last_match s i (snd (get_last_match s i c)))) =
     fetch_log (snd (get_last_match s i c))"
  by (simp add: get_last_match_twice)

subsection \<open>C10: the lookup in \<open>logs_by_project\<close>\<close>

text \<open>
  Claim C10: when the serial-port logs are available and the dictionary has no entry for
  the project, \<open>run_rule\<close> ends with the \<open>KeyError\<close> of the lookup, having made no call.
  In every other case, and so after \<open>prepare_rule\<close> for the same project, the run returns
  or ends with a failure of the search, never with a \<open>KeyError\<close>; after \<open>prepare_rule\<close>
  on a log source that answers, a run on the new cache returns.
\<close>

theorem run_rule_key_error:
  "(is_serial_port_one_logs_available env ctx \<and> logs (project_id ctx) = None \<longrightarrow>
      run_rule env ctx logs c = ([], Some (KeyError (project_id ctx)), c)) \<and>
   (\<not> (is_serial_port_one_logs_available env ctx \<and> logs (project_id ctx) = None) \<longrightarrow>
      outcome_of (run_rule env ctx logs c) = None \<or>
      (\<exists>e. outcome_of (run_rule env ctx logs c) = Some (SearchError e))) \<and>
   (outcome_of (run_rule env ctx (prepare_rule env0 ctx logs) c) = None \<or>
    (\<exists>e. outcome_of (run_rule env ctx (prepare_rule env0 ctx logs) c) = Some (SearchError e))) \<and>
   (serial_lines env0 ctx = Inr lines \<longrightarrow>
      outcome_of (run_rule env ctx (prepare_rule env0 ctx logs) new_cache) = None)"
proof (intro conjI impI)
  assume "is_serial_port_one_logs_available env ctx \<and> logs (project_id ctx) = None"
  then show "run_rule env ctx logs c = ([], Some (KeyError (project_id ctx)), c)"
    by (simp add: run_rule_def)
next
  assume "\<not> (is_serial_port_one_logs_available env ctx \<and> logs (project_id ctx) = None)"
  then show "outcome_of (run_rule env ctx logs c) = None \<or>
      (\<exists>e. outcome_of (run_rule env ctx logs c) = Some (SearchError e))"
    using run_loop_outcome
    by (auto simp: run_rule_cases result_parts split: option.splits)
next
  show "outcome_of (run_rule env ctx (prepare_rule env0 ctx logs) c) = None \<or>
    (\<exists>e. outcome_of (run_rule env ctx (prepare_rule env0 ctx logs) c) = Some (SearchError e))"
    using run_loop_outcome
    by (auto simp: run_rule_cases result_parts prepare_rule_lookup)
next
  assume "serial_lines env0 ctx = Inr lines"
  then have "log_source (new_search env0 ctx TIME_SYNC_ERROR_MESSAGES (Some filter_str)) = Inr lines"
    by (simp add: new_search_def)
  from run_loop_no_failure [OF this, of new_cache]
  show "outcome_of (run_rule env ctx (prepare_rule env0 ctx logs) new_cache) = None"
    by (simp add: run_rule_cases result_parts prepare_rule_lookup new_cache_def)
qed

text \<open>
  The project with two instances, without and with \<open>prepare_rule\<close>.
\<close>

theorem run_rule_key_error_witness:
  "is_serial_port_one_logs_available env1 ctx1 \<and>
   (Map.empty :: logs_by_project) (project_id ctx1) = None \<and>
   run_rule env1 ctx1 Map.empty new_cache = ([], Some (KeyError ''p1''), new_cache) \<and>
   outcome_of (run_rule env1 ctx1 (prepare_rule env1 ctx1 Map.empty) new_cache) = None"
proof -
  have h1: "is_serial_port_one_logs_available env1 ctx1" by (simp add: env_fields)
  have h2: "(Map.empty :: logs_by_project) (project_id ctx1) = None" by simp
  have h3: "serial_lines env1 ctx1 = Inr [(''1001'', entry_a), (''1002'', entry_boot)]"
    by (simp add: env1_def)
  from run_rule_key_error
    [of env1 ctx1 Map.empty new_cache env1 "[(''1001'', entry_a), (''1002'', entry_boot)]"]
    h1 h2 h3
  show ?thesis by (simp add: project_id_ctx1)
qed

end
